theory Spec2Isabelle
  imports
    Complex_Main
    "HOL-Library.List_Lexorder"
    "HOL-Library.Char_ord"
    "HOL-Library.Product_Lexorder"
    "HOL-Library.Sublist"
    "HOL-Library.Multiset"
begin

section \<open>Numeric cells\<close>

text \<open>
  The numeric columns of the data frames are float64 columns. A value is modelled as a
  finite number, one of the two infinities, or NaN (which is also how pandas stores a
  missing number). Finite values are exact reals: the rounding and the overflow of binary64
  arithmetic are not represented, and there is a single zero (no sign of zero). The
  arithmetic on the special values is that of IEEE 754, which is what the column operators
  \<^verbatim>\<open>-\<close>, \<^verbatim>\<open>*\<close> and \<^verbatim>\<open>/\<close> of pandas compute: none of them raises, a division by
  zero yields an infinity or NaN.
\<close>

datatype fval = Fin real | PInf | NInf | NaN

fun fneg :: "fval \<Rightarrow> fval" where
  "fneg (Fin a) = Fin (- a)"
| "fneg PInf = NInf"
| "fneg NInf = PInf"
| "fneg NaN = NaN"

fun fadd :: "fval \<Rightarrow> fval \<Rightarrow> fval" where
  "fadd NaN _ = NaN"
| "fadd _ NaN = NaN"
| "fadd (Fin a) (Fin b) = Fin (a + b)"
| "fadd PInf NInf = NaN"
| "fadd NInf PInf = NaN"
| "fadd PInf _ = PInf"
| "fadd _ PInf = PInf"
| "fadd NInf _ = NInf"
| "fadd _ NInf = NInf"

definition fsub :: "fval \<Rightarrow> fval \<Rightarrow> fval" where
  "fsub a b = fadd a (fneg b)"

fun fmul :: "fval \<Rightarrow> fval \<Rightarrow> fval" where
  "fmul NaN _ = NaN"
| "fmul _ NaN = NaN"
| "fmul (Fin a) (Fin b) = Fin (a * b)"
| "fmul PInf (Fin b) = (if b = 0 then NaN else if 0 < b then PInf else NInf)"
| "fmul NInf (Fin b) = (if b = 0 then NaN else if 0 < b then NInf else PInf)"
| "fmul (Fin a) PInf = (if a = 0 then NaN else if 0 < a then PInf else NInf)"
| "fmul (Fin a) NInf = (if a = 0 then NaN else if 0 < a then NInf else PInf)"
| "fmul PInf PInf = PInf"
| "fmul NInf NInf = PInf"
| "fmul PInf NInf = NInf"
| "fmul NInf PInf = NInf"

fun fdiv :: "fval \<Rightarrow> fval \<Rightarrow> fval" where
  "fdiv NaN _ = NaN"
| "fdiv _ NaN = NaN"
| "fdiv (Fin a) (Fin b) =
     (if b = 0 then (if a = 0 then NaN else if 0 < a then PInf else NInf)
      else Fin (a / b))"
| "fdiv (Fin a) _ = Fin 0"
| "fdiv PInf (Fin b) = (if b < 0 then NInf else PInf)"
| "fdiv NInf (Fin b) = (if b < 0 then PInf else NInf)"
| "fdiv _ _ = NaN"

text \<open>Comparisons are those of IEEE 754: every comparison with NaN is false.\<close>

fun fle :: "fval \<Rightarrow> fval \<Rightarrow> bool" where
  "fle NaN _ = False"
| "fle _ NaN = False"
| "fle (Fin a) (Fin b) = (a \<le> b)"
| "fle NInf _ = True"
| "fle _ PInf = True"
| "fle _ _ = False"

fun flt :: "fval \<Rightarrow> fval \<Rightarrow> bool" where
  "flt NaN _ = False"
| "flt _ NaN = False"
| "flt (Fin a) (Fin b) = (a < b)"
| "flt PInf _ = False"
| "flt _ NInf = False"
| "flt _ _ = True"

fun fabs :: "fval \<Rightarrow> fval" where
  "fabs (Fin a) = Fin \<bar>a\<bar>"
| "fabs PInf = PInf"
| "fabs NInf = PInf"
| "fabs NaN = NaN"

definition notna :: "fval \<Rightarrow> bool" where
  "notna v = (v \<noteq> NaN)"

text \<open>
  \<^verbatim>\<open>.round(2)\<close>: numpy rounds \<open>x\<close> to two decimals as \<open>rint (x * 100) / 100\<close>, where
  \<open>rint\<close> rounds to the nearest integer and a tie to the even one. Infinities and NaN are
  left as they are.
\<close>

definition rint :: "real \<Rightarrow> int" where
  "rint x =
     (let f = \<lfloor>x\<rfloor>; d = x - of_int f
      in if d < 1 / 2 then f else if 1 / 2 < d then f + 1
         else if even f then f else f + 1)"

fun round2 :: "fval \<Rightarrow> fval" where
  "round2 (Fin x) = Fin (of_int (rint (x * 100)) / 100)"
| "round2 v = v"

section \<open>The two input tables\<close>

text \<open>
  A data frame is the list of its rows. A cell of a text column is \<open>None\<close> when the value
  is missing; a cell of a numeric column of the input files is a number or missing. The
  record is polymorphic in the type of the \<^verbatim>\<open>Order Date\<close> column, which
  \<^verbatim>\<open>clean_and_prepare_data\<close> converts from text to dates.
\<close>

record 'd sale =
  Order_ID :: "string option"
  Order_Date :: 'd
  Customer_ID :: "string option"
  Product_ID :: "string option"
  Product_Name :: "string option"
  Category :: "string option"
  Sub_Category :: "string option"
  City :: "string option"
  Postal_Code :: "string option"
  Region :: "string option"
  Quantity :: "real option"
  Sales :: "real option"
  Cost_Price :: "real option"
  Discount :: "real option"
  Order_Mode :: "string option"

record store =
  store_City :: "string option"
  store_Postal_Code :: "string option"
  store_Region :: "string option"

record 'd prepared = "'d sale" +
  Revenue :: fval
  Profit_Margin :: fval
  Total_Revenue :: fval
  Total_Sales :: fval
  Region_store :: "string option"
  Region_Final :: "string option"
  Segment :: string

datatype error = ValueError | KeyError string | IndexError

definition cell :: "real option \<Rightarrow> fval" where
  "cell c = (case c of None \<Rightarrow> NaN | Some x \<Rightarrow> Fin x)"

section \<open>Preparer: \<^verbatim>\<open>clean_and_prepare_data\<close>\<close>

text \<open>
  \<^verbatim>\<open>pd.to_datetime\<close> on the date column: a missing cell becomes a missing date, a cell
  that does not parse raises. The parser itself belongs to pandas and is a parameter.
\<close>

definition to_datetime ::
  "(string \<Rightarrow> 'd option) \<Rightarrow> string option list \<Rightarrow> error + 'd option list" where
  "to_datetime parse col =
     (if list_all (\<lambda>c. case c of None \<Rightarrow> True | Some s \<Rightarrow> parse s \<noteq> None) col
      then Inr (map (\<lambda>c. Option.bind c parse) col)
      else Inl ValueError)"

definition set_Order_Date :: "'a sale \<Rightarrow> 'b \<Rightarrow> 'b sale" where
  "set_Order_Date r d =
     \<lparr>Order_ID = Order_ID r, Order_Date = d, Customer_ID = Customer_ID r,
      Product_ID = Product_ID r, Product_Name = Product_Name r, Category = Category r,
      Sub_Category = Sub_Category r, City = City r, Postal_Code = Postal_Code r,
      Region = Region r, Quantity = Quantity r, Sales = Sales r,
      Cost_Price = Cost_Price r, Discount = Discount r, Order_Mode = Order_Mode r\<rparr>"

text \<open>The derived columns, row by row (lines 53 to 62 of the source).\<close>

definition Revenue_col :: "'d sale \<Rightarrow> fval" where
  "Revenue_col r = fsub (cell (Sales r)) (cell (Cost_Price r))"

definition Profit_Margin_col :: "'d sale \<Rightarrow> fval" where
  "Profit_Margin_col r = fmul (fdiv (Revenue_col r) (cell (Sales r))) (Fin 100)"

definition Total_Revenue_col :: "'d sale \<Rightarrow> fval" where
  "Total_Revenue_col r = fmul (Revenue_col r) (cell (Quantity r))"

definition Total_Sales_col :: "'d sale \<Rightarrow> fval" where
  "Total_Sales_col r = fmul (cell (Sales r)) (cell (Quantity r))"

text \<open>
  \<^verbatim>\<open>merge(..., on=['City', 'Postal Code'], how='left')\<close>: the rows of the left table in
  their order; a row with no partner in the store table is kept once with a missing
  \<^verbatim>\<open>Region_store\<close>, a row with several partners is repeated once for each of them, in
  the order of the store table. pandas matches a missing key with a missing key, as the
  equality on \<open>option\<close> does.
\<close>

definition matches :: "('d, 'z) sale_scheme \<Rightarrow> store list \<Rightarrow> store list" where
  "matches s stores =
     filter (\<lambda>t. store_City t = City s \<and> store_Postal_Code t = Postal_Code s) stores"

definition merge_left :: "'d sale list \<Rightarrow> store list \<Rightarrow> ('d sale \<times> string option) list" where
  "merge_left sales stores =
     concat (map (\<lambda>s. case matches s stores of
                         [] \<Rightarrow> [(s, None)]
                       | ms \<Rightarrow> map (\<lambda>t. (s, store_Region t)) ms) sales)"

definition fillna :: "'a option \<Rightarrow> 'a option \<Rightarrow> 'a option" where
  "fillna a b = (case a of None \<Rightarrow> b | Some x \<Rightarrow> Some x)"

text \<open>
  The function applied to each cell of the \<^verbatim>\<open>Category\<close> column (lines 73 to 78);
  \<^verbatim>\<open>x.startswith(p)\<close> is \<open>prefix p x\<close>.
\<close>

definition segment_of :: "string option \<Rightarrow> string" where
  "segment_of x =
     (if x \<noteq> None \<and> prefix ''Food'' (the x) then ''Food & Beverages''
      else if x \<noteq> None \<and> the x \<in> set [''Home'', ''Kitchen'', ''Home Appliances'']
        then ''Home & Living''
      else if x \<noteq> None \<and> the x \<in> set [''Health'', ''Beauty'', ''Grooming'']
        then ''Health & Beauty''
      else if x \<noteq> None \<and> prefix ''Clothing'' (the x) then ''Fashion''
      else ''Other'')"

definition prepare_row :: "'d sale \<times> string option \<Rightarrow> 'd prepared" where
  "prepare_row p =
     (case p of (s, rs) \<Rightarrow>
        sale.extend s
          (prepared.fields (Revenue_col s) (Profit_Margin_col s) (Total_Revenue_col s)
             (Total_Sales_col s) rs (fillna rs (Region s)) (segment_of (Category s))))"

definition clean_and_prepare_data ::
  "(string \<Rightarrow> 'd option) \<Rightarrow> string option sale list \<Rightarrow> store list
     \<Rightarrow> error + 'd option prepared list" where
  "clean_and_prepare_data parse sales_df stores_df =
     (case to_datetime parse (map Order_Date sales_df) of
        Inl e \<Rightarrow> Inl e
      | Inr dates \<Rightarrow>
          Inr (map prepare_row
                 (merge_left (map (\<lambda>(s, d). set_Order_Date s d) (zip sales_df dates))
                    stores_df)))"

text \<open>The key of a store row in the merge, \<^verbatim>\<open>on=['City', 'Postal Code']\<close>.\<close>

definition merge_keys :: "store \<Rightarrow> string option \<times> string option" where
  "merge_keys t = (store_City t, store_Postal_Code t)"

text \<open>A row of the transaction table after the conversion of its date (line 50).\<close>

definition dated :: "(string \<Rightarrow> 'd option) \<Rightarrow> string option sale \<Rightarrow> 'd option sale" where
  "dated parse s = set_Order_Date s (Option.bind (Order_Date s) parse)"

section \<open>Aggregator\<close>

text \<open>
  \<^verbatim>\<open>df.groupby(key)\<close>: one group for each value of the key that occurs, in the sorted
  order of the key values; the rows with a missing key belong to no group; inside a group
  the rows keep the order of the table.
\<close>

definition groupby :: "('r \<Rightarrow> 'k::linorder option) \<Rightarrow> 'r list \<Rightarrow> ('k \<times> 'r list) list" where
  "groupby key df =
     map (\<lambda>k. (k, filter (\<lambda>r. key r = Some k) df)) (sort (remdups (List.map_filter key df)))"

text \<open>
  The reductions \<^verbatim>\<open>'sum'\<close>, \<^verbatim>\<open>'mean'\<close> and \<^verbatim>\<open>'count'\<close> (and \<^verbatim>\<open>Series.sum()\<close>,
  \<^verbatim>\<open>Series.mean()\<close>) leave the missing values out: the sum of no value is 0, the mean of
  no value is NaN, and \<^verbatim>\<open>'count'\<close> counts the cells that are not missing.
\<close>

definition agg_sum :: "fval list \<Rightarrow> fval" where
  "agg_sum xs = foldl fadd (Fin 0) (filter notna xs)"

definition agg_mean :: "fval list \<Rightarrow> fval" where
  "agg_mean xs =
     (let ys = filter notna xs
      in if ys = [] then NaN else fdiv (foldl fadd (Fin 0) ys) (Fin (real (length ys))))"

definition agg_count :: "'a option list \<Rightarrow> nat" where
  "agg_count cs = length (filter (\<lambda>c. c \<noteq> None) cs)"

text \<open>
  \<^verbatim>\<open>sort_values(column, ascending=...)\<close>: the rows whose key is NaN are put last, in
  their order; the other rows are sorted by the key. For a descending sort pandas reverses
  the rows, sorts them in ascending order and reverses the result. The sort itself is
  numpy's; it is modelled by an insertion sort. pandas leaves the order of rows with equal
  keys to the sort algorithm, and no property below depends on it.
\<close>

fun insort_by :: "('a \<Rightarrow> fval) \<Rightarrow> 'a \<Rightarrow> 'a list \<Rightarrow> 'a list" where
  "insort_by k x [] = [x]"
| "insort_by k x (y # ys) =
     (if fle (k x) (k y) then x # y # ys else y # insort_by k x ys)"

definition argsort :: "('a \<Rightarrow> fval) \<Rightarrow> 'a list \<Rightarrow> 'a list" where
  "argsort k xs = foldr (insort_by k) xs []"

definition sort_values :: "('a \<Rightarrow> fval) \<Rightarrow> bool \<Rightarrow> 'a list \<Rightarrow> 'a list" where
  "sort_values k ascending rows =
     (let non_nans = filter (\<lambda>r. notna (k r)) rows;
          nans = filter (\<lambda>r. \<not> notna (k r)) rows
      in (if ascending then argsort k non_nans else rev (argsort k (rev non_nans))) @ nans)"

subsection \<open>\<^verbatim>\<open>analyze_by_region_segment\<close>\<close>

record summary_row =
  rs_index :: string
  rs_Total_Sales :: fval
  rs_Total_Revenue :: fval
  rs_Avg_Discount_Rate :: fval
  rs_Order_Count :: nat

definition summary_agg :: "string \<times> ('d, 'z) prepared_scheme list \<Rightarrow> summary_row" where
  "summary_agg g =
     (case g of (k, rows) \<Rightarrow>
        \<lparr>rs_index = k,
         rs_Total_Sales = round2 (agg_sum (map Total_Sales rows)),
         rs_Total_Revenue = round2 (agg_sum (map Total_Revenue rows)),
         rs_Avg_Discount_Rate = round2 (agg_mean (map (\<lambda>r. cell (Discount r)) rows)),
         rs_Order_Count = agg_count (map Order_ID rows)\<rparr>)"

definition regional_summary :: "('d, 'z) prepared_scheme list \<Rightarrow> summary_row list" where
  "regional_summary df =
     sort_values rs_Total_Revenue False (map summary_agg (groupby Region_Final df))"

definition segment_summary :: "('d, 'z) prepared_scheme list \<Rightarrow> summary_row list" where
  "segment_summary df =
     sort_values rs_Total_Revenue False (map summary_agg (groupby (\<lambda>r. Some (Segment r)) df))"

definition analyze_by_region_segment ::
  "('d, 'z) prepared_scheme list \<Rightarrow> summary_row list \<times> summary_row list" where
  "analyze_by_region_segment df = (regional_summary df, segment_summary df)"

subsection \<open>\<^verbatim>\<open>analyze_products\<close>\<close>

record product_row =
  pr_index :: "string \<times> string"
  pr_Total_Revenue :: fval
  pr_Total_Sales :: fval
  pr_Quantity :: fval
  pr_Profit_Margin :: fval

definition product_key :: "('d, 'z) prepared_scheme \<Rightarrow> (string \<times> string) option" where
  "product_key r =
     (case (Product_Name r, Category r) of (Some p, Some c) \<Rightarrow> Some (p, c) | _ \<Rightarrow> None)"

definition product_agg :: "(string \<times> string) \<times> ('d, 'z) prepared_scheme list \<Rightarrow> product_row" where
  "product_agg g =
     (case g of (k, rows) \<Rightarrow>
        \<lparr>pr_index = k,
         pr_Total_Revenue = round2 (agg_sum (map Total_Revenue rows)),
         pr_Total_Sales = round2 (agg_sum (map Total_Sales rows)),
         pr_Quantity = round2 (agg_sum (map (\<lambda>r. cell (Quantity r)) rows)),
         pr_Profit_Margin = round2 (agg_mean (map Profit_Margin rows))\<rparr>)"

definition product_revenue :: "('d, 'z) prepared_scheme list \<Rightarrow> product_row list" where
  "product_revenue df = map product_agg (groupby product_key df)"

definition analyze_products ::
  "('d, 'z) prepared_scheme list \<Rightarrow> product_row list \<times> product_row list \<times> product_row list" where
  "analyze_products df =
     (take 5 (sort_values pr_Total_Revenue False (product_revenue df)),
      take 5 (sort_values pr_Total_Revenue True (product_revenue df)),
      product_revenue df)"

subsection \<open>\<^verbatim>\<open>analyze_categories_margins\<close>\<close>

record category_row =
  cm_index :: string
  cm_Profit_Margin :: fval
  cm_Total_Revenue :: fval
  cm_Total_Sales :: fval
  cm_Order_ID :: nat

definition category_agg :: "string \<times> ('d, 'z) prepared_scheme list \<Rightarrow> category_row" where
  "category_agg g =
     (case g of (k, rows) \<Rightarrow>
        \<lparr>cm_index = k,
         cm_Profit_Margin = round2 (agg_mean (map Profit_Margin rows)),
         cm_Total_Revenue = round2 (agg_sum (map Total_Revenue rows)),
         cm_Total_Sales = round2 (agg_sum (map Total_Sales rows)),
         cm_Order_ID = agg_count (map Order_ID rows)\<rparr>)"

definition analyze_categories_margins :: "('d, 'z) prepared_scheme list \<Rightarrow> category_row list" where
  "analyze_categories_margins df =
     sort_values cm_Profit_Margin False (map category_agg (groupby Category df))"

subsection \<open>\<^verbatim>\<open>analyze_order_mode\<close>\<close>

record order_mode_agg_row =
  om_index :: string
  om_Total_Sales :: fval
  om_Total_Revenue :: fval
  om_Order_ID :: nat
  om_Discount :: fval

record order_mode_row = order_mode_agg_row +
  om_Sales_pct :: fval
  om_Revenue_pct :: fval

definition order_mode_agg :: "string \<times> ('d, 'z) prepared_scheme list \<Rightarrow> order_mode_agg_row" where
  "order_mode_agg g =
     (case g of (k, rows) \<Rightarrow>
        \<lparr>om_index = k,
         om_Total_Sales = round2 (agg_sum (map Total_Sales rows)),
         om_Total_Revenue = round2 (agg_sum (map Total_Revenue rows)),
         om_Order_ID = agg_count (map Order_ID rows),
         om_Discount = round2 (agg_mean (map (\<lambda>r. cell (Discount r)) rows))\<rparr>)"

text \<open>
  The share of a group is its rounded total divided by the sum of the rounded totals, times
  100, rounded to two decimals.
\<close>

definition pct :: "fval \<Rightarrow> fval \<Rightarrow> fval" where
  "pct x whole = round2 (fmul (fdiv x whole) (Fin 100))"

definition analyze_order_mode :: "('d, 'z) prepared_scheme list \<Rightarrow> order_mode_row list" where
  "analyze_order_mode df =
     (let t = map order_mode_agg (groupby Order_Mode df);
          sales_sum = agg_sum (map om_Total_Sales t);
          revenue_sum = agg_sum (map om_Total_Revenue t)
      in map (\<lambda>g. order_mode_agg_row.extend g
                    (order_mode_row.fields (pct (om_Total_Sales g) sales_sum)
                       (pct (om_Total_Revenue g) revenue_sum))) t)"

text \<open>
  A table is in descending order of a key, with the missing keys last, when every row
  whose key is a number is preceded by a row whose key is at least as large.
\<close>

fun descending_nan_last :: "('a \<Rightarrow> fval) \<Rightarrow> 'a list \<Rightarrow> bool" where
  "descending_nan_last k (x # y # ys) =
     ((if notna (k y) then fle (k y) (k x) else True) \<and> descending_nan_last k (y # ys))"
| "descending_nan_last k _ = True"

section \<open>Reporter and entry point\<close>

text \<open>
  \<^verbatim>\<open>generate_insights_report\<close> formats the aggregates into a text. The model keeps the
  values that the text is built from, in the order in which the source evaluates them, and
  every lookup that can raise: \<^verbatim>\<open>strftime\<close> on a missing date, \<^verbatim>\<open>index[i]\<close> and
  \<^verbatim>\<open>iloc[i]\<close> beyond the end of a table, \<^verbatim>\<open>.loc[label, column]\<close> with a label that is
  not in the index. The layout of the text is not modelled.
\<close>

definition bind_err :: "error + 'a \<Rightarrow> ('a \<Rightarrow> error + 'b) \<Rightarrow> error + 'b" where
  "bind_err m f = (case m of Inl e \<Rightarrow> Inl e | Inr x \<Rightarrow> f x)"

definition index_at :: "'a list \<Rightarrow> nat \<Rightarrow> error + 'a" where
  "index_at xs i = (if i < length xs then Inr (xs ! i) else Inl IndexError)"

definition index_last :: "'a list \<Rightarrow> error + 'a" where
  "index_last xs = (if xs = [] then Inl IndexError else Inr (last xs))"

definition loc :: "order_mode_row list \<Rightarrow> string \<Rightarrow> error + order_mode_row" where
  "loc t label =
     (case find (\<lambda>g. om_index g = label) t of
        None \<Rightarrow> Inl (KeyError label)
      | Some g \<Rightarrow> Inr g)"

definition strftime_range :: "('d option, 'z) prepared_scheme list \<Rightarrow> error + unit" where
  "strftime_range df = (if List.map_filter Order_Date df = [] then Inl ValueError else Inr ())"

record report =
  rp_orders :: nat
  rp_top_regions :: "summary_row list"
  rp_region_leader :: summary_row
  rp_top_segments :: "summary_row list"
  rp_segment_leader :: summary_row
  rp_top_products :: "product_row list"
  rp_bottom_products :: "product_row list"
  rp_top_categories :: "category_row list"
  rp_category_leader :: category_row
  rp_channels :: "order_mode_row list"
  rp_leader :: string
  rp_balanced :: bool
  rp_channel_discounts :: "fval \<times> fval"
  rp_focus_regions :: "string \<times> string"
  rp_last_region :: string
  rp_focus_categories :: "string \<times> string"

definition generate_insights_report ::
  "('d option, 'z) prepared_scheme list \<Rightarrow> summary_row list \<Rightarrow> summary_row list
     \<Rightarrow> product_row list \<Rightarrow> product_row list \<Rightarrow> category_row list
     \<Rightarrow> order_mode_row list \<Rightarrow> error + report" where
  "generate_insights_report df regional segment top_products bottom_products
       category_margins order_mode_analysis =
     bind_err (strftime_range df) (\<lambda>_.
     bind_err (index_at regional 0) (\<lambda>region_leader.
     bind_err (index_at segment 0) (\<lambda>segment_leader.
     bind_err (index_at category_margins 0) (\<lambda>category_leader.
     bind_err (loc order_mode_analysis ''Online'') (\<lambda>online.
     bind_err (loc order_mode_analysis ''In-Store'') (\<lambda>in_store.
       let online_vs_store = fsub (om_Sales_pct online) (om_Sales_pct in_store);
           leader = (if flt (Fin 0) online_vs_store then ''Online'' else ''In-Store'')
       in
     bind_err (index_at regional 1) (\<lambda>region_second.
     bind_err (index_last regional) (\<lambda>region_last.
     bind_err (index_at category_margins 1) (\<lambda>category_second.
       Inr \<lparr>rp_orders = length df,
            rp_top_regions = take 3 regional,
            rp_region_leader = region_leader,
            rp_top_segments = take 3 segment,
            rp_segment_leader = segment_leader,
            rp_top_products = top_products,
            rp_bottom_products = bottom_products,
            rp_top_categories = take 5 category_margins,
            rp_category_leader = category_leader,
            rp_channels = order_mode_analysis,
            rp_leader = leader,
            rp_balanced = flt (fabs online_vs_store) (Fin 10),
            rp_channel_discounts = (om_Discount online, om_Discount in_store),
            rp_focus_regions = (rs_index region_leader, rs_index region_second),
            rp_last_region = rs_index region_last,
            rp_focus_categories = (cm_index category_leader, cm_index category_second)\<rparr>
     )))))))))"

text \<open>
  \<^verbatim>\<open>main\<close> without its file input and output: the two tables are its arguments and the
  report is its result. Nothing in \<^verbatim>\<open>main\<close> catches an exception, so the first failure
  of a step is the failure of the run. The printing of \<^verbatim>\<open>exploratory_analysis\<close> and the
  drawing of the charts are left out.
\<close>

definition main ::
  "(string \<Rightarrow> 'd option) \<Rightarrow> string option sale list \<Rightarrow> store list \<Rightarrow> error + report" where
  "main parse sales_df stores_df =
     bind_err (clean_and_prepare_data parse sales_df stores_df) (\<lambda>df.
       case analyze_by_region_segment df of (regional, segment) \<Rightarrow>
       case analyze_products df of (top_products, bottom_products, _) \<Rightarrow>
         generate_insights_report df regional segment top_products bottom_products
           (analyze_categories_margins df) (analyze_order_mode df))"

section \<open>Sample tables\<close>

text \<open>Small tables on which the functions above are evaluated below.\<close>

definition parse_iso :: "string \<Rightarrow> string option" where
  "parse_iso s = (if length s = 10 then Some s else None)"

definition sale1 :: "string option sale" where
  "sale1 =
     \<lparr>Order_ID = Some ''O1'', Order_Date = Some ''2025-01-15'', Customer_ID = Some ''C1'',
      Product_ID = Some ''P1'', Product_Name = Some ''Crisps'',
      Category = Some ''Food-Snacks'', Sub_Category = Some ''Snacks'',
      City = Some ''Leeds'', Postal_Code = Some ''LS1'', Region = Some ''North'',
      Quantity = Some 3, Sales = Some 100, Cost_Price = Some 60, Discount = Some (1 / 10),
      Order_Mode = Some ''Online''\<rparr>"

definition sale2 :: "string option sale" where
  "sale2 =
     \<lparr>Order_ID = Some ''O2'', Order_Date = Some ''2025-02-03'', Customer_ID = Some ''C2'',
      Product_ID = Some ''P2'', Product_Name = Some ''Kettle'',
      Category = Some ''Kitchen'', Sub_Category = Some ''Appliances'',
      City = Some ''Bath'', Postal_Code = Some ''BA1'', Region = Some ''West'',
      Quantity = Some 2, Sales = Some 40, Cost_Price = Some 25, Discount = None,
      Order_Mode = Some ''In-Store''\<rparr>"

definition store1 :: store where
  "store1 = \<lparr>store_City = Some ''Leeds'', store_Postal_Code = Some ''LS1'',
             store_Region = Some ''Yorkshire''\<rparr>"

definition store2 :: store where
  "store2 = \<lparr>store_City = Some ''Bath'', store_Postal_Code = Some ''BA1'',
             store_Region = Some ''South West''\<rparr>"

definition store3 :: store where
  "store3 = \<lparr>store_City = Some ''Bath'', store_Postal_Code = Some ''BA1'',
             store_Region = Some ''Somerset''\<rparr>"


definition sale_no_region :: "string option sale" where
  "sale_no_region =
     sale1\<lparr>Order_ID := Some ''O4'', City := Some ''York'', Postal_Code := Some ''YO1'',
            Region := None\<rparr>"

definition sale_free :: "string option sale" where
  "sale_free = sale1\<lparr>Order_ID := Some ''O5'', Sales := Some 0, Cost_Price := Some 0\<rparr>"

definition sale_no_discount :: "string option sale" where
  "sale_no_discount = sale1\<lparr>Order_ID := Some ''O6'', Discount := None\<rparr>"



section \<open>Properties of the preparer\<close>

subsection \<open>Rows of the prepared table\<close>

lemma prepare_row_sale [simp]:
  "Order_ID (prepare_row (s, rs)) = Order_ID s"
  "Order_Date (prepare_row (s, rs)) = Order_Date s"
  "Product_Name (prepare_row (s, rs)) = Product_Name s"
  "Category (prepare_row (s, rs)) = Category s"
  "City (prepare_row (s, rs)) = City s"
  "Postal_Code (prepare_row (s, rs)) = Postal_Code s"
  "Region (prepare_row (s, rs)) = Region s"
  "Quantity (prepare_row (s, rs)) = Quantity s"
  "Sales (prepare_row (s, rs)) = Sales s"
  "Cost_Price (prepare_row (s, rs)) = Cost_Price s"
  "Discount (prepare_row (s, rs)) = Discount s"
  "Order_Mode (prepare_row (s, rs)) = Order_Mode s"
  by (simp_all add: prepare_row_def sale.defs prepared.defs)

lemma prepare_row_derived [simp]:
  "Revenue (prepare_row (s, rs)) = Revenue_col s"
  "Profit_Margin (prepare_row (s, rs)) = Profit_Margin_col s"
  "Total_Revenue (prepare_row (s, rs)) = Total_Revenue_col s"
  "Total_Sales (prepare_row (s, rs)) = Total_Sales_col s"
  "Region_store (prepare_row (s, rs)) = rs"
  "Region_Final (prepare_row (s, rs)) = fillna rs (Region s)"
  "Segment (prepare_row (s, rs)) = segment_of (Category s)"
  by (simp_all add: prepare_row_def sale.defs prepared.defs)

lemma truncate_prepare_row [simp]: "sale.truncate (prepare_row (s, rs)) = s"
  by (simp add: prepare_row_def sale.defs prepared.defs)

lemma set_Order_Date_fields [simp]:
  "Order_ID (set_Order_Date r d) = Order_ID r"
  "Order_Date (set_Order_Date r d) = d"
  "Product_Name (set_Order_Date r d) = Product_Name r"
  "Category (set_Order_Date r d) = Category r"
  "City (set_Order_Date r d) = City r"
  "Postal_Code (set_Order_Date r d) = Postal_Code r"
  "Region (set_Order_Date r d) = Region r"
  "Quantity (set_Order_Date r d) = Quantity r"
  "Sales (set_Order_Date r d) = Sales r"
  "Cost_Price (set_Order_Date r d) = Cost_Price r"
  "Discount (set_Order_Date r d) = Discount r"
  "Order_Mode (set_Order_Date r d) = Order_Mode r"
  by (simp_all add: set_Order_Date_def)

lemma clean_and_prepare_data_rows:
  assumes "clean_and_prepare_data parse sales_df stores_df = Inr df"
  shows "\<exists>dated. length dated = length sales_df
            \<and> (\<forall>i < length sales_df.
                  dated ! i = set_Order_Date (sales_df ! i)
                                (Option.bind (Order_Date (sales_df ! i)) parse))
            \<and> df = map prepare_row (merge_left dated stores_df)"
proof -
  let ?dates = "map (\<lambda>c. Option.bind c parse) (map Order_Date sales_df)"
  let ?dated = "map (\<lambda>(s, d). set_Order_Date s d) (zip sales_df ?dates)"
  from assms have "df = map prepare_row (merge_left ?dated stores_df)"
    by (auto simp: clean_and_prepare_data_def to_datetime_def split: if_splits)
  moreover have "length ?dated = length sales_df" by simp
  moreover have "\<forall>i < length sales_df.
      ?dated ! i = set_Order_Date (sales_df ! i) (Option.bind (Order_Date (sales_df ! i)) parse)"
    by simp
  ultimately show ?thesis by blast
qed

lemma merge_left_Nil [simp]: "merge_left [] stores = []"
  by (simp add: merge_left_def)

lemma merge_left_Cons:
  "merge_left (s # sales) stores =
     (case matches s stores of [] \<Rightarrow> [(s, None)] | ms \<Rightarrow> map (\<lambda>t. (s, store_Region t)) ms)
     @ merge_left sales stores"
  by (simp add: merge_left_def)

lemma set_fst_merge_left: "fst ` set (merge_left sales stores) = set sales"
proof (induction sales)
  case Nil
  show ?case by simp
next
  case (Cons s sales)
  have "fst ` set (case matches s stores of [] \<Rightarrow> [(s, None)]
                   | ms \<Rightarrow> map (\<lambda>t. (s, store_Region t)) ms) = {s}"
    by (cases "matches s stores") auto
  with Cons show ?case by (simp add: merge_left_Cons image_Un)
qed

subsection \<open>Segment classification\<close>

lemma Segment_of_Category:
  assumes "clean_and_prepare_data parse sales_df stores_df = Inr df" and "r \<in> set df"
  shows "Segment r = segment_of (Category r)"
proof -
  from clean_and_prepare_data_rows [OF assms(1)] obtain dated
    where "df = map prepare_row (merge_left dated stores_df)" by blast
  with assms(2) obtain p where "r = prepare_row p" by auto
  then show ?thesis by (cases p) simp
qed

text \<open>
  Claim C3. The segment of a record is a function of its category alone:
  a category that starts with "Food" gives "Food & Beverages"; Home, Kitchen and
  Home Appliances give "Home & Living"; Health, Beauty and Grooming give
  "Health & Beauty"; a category that starts with "Clothing" gives "Fashion"; every other
  category, and a missing one, gives "Other". The four conditions exclude each other, so
  each holds whatever the order of the tests. In every row of the prepared table the
  segment is this function of the row's category.
\<close>

theorem segment_classification:
  "(prefix ''Food'' c1 \<longrightarrow> segment_of (Some c1) = ''Food & Beverages'')
   \<and> (c2 \<in> {''Home'', ''Kitchen'', ''Home Appliances''}
        \<longrightarrow> segment_of (Some c2) = ''Home & Living'')
   \<and> (c3 \<in> {''Health'', ''Beauty'', ''Grooming''}
        \<longrightarrow> segment_of (Some c3) = ''Health & Beauty'')
   \<and> (prefix ''Clothing'' c4 \<longrightarrow> segment_of (Some c4) = ''Fashion'')
   \<and> (\<not> prefix ''Food'' c5
        \<and> c5 \<notin> {''Home'', ''Kitchen'', ''Home Appliances'', ''Health'', ''Beauty'', ''Grooming''}
        \<and> \<not> prefix ''Clothing'' c5 \<longrightarrow> segment_of (Some c5) = ''Other'')
   \<and> segment_of None = ''Other''
   \<and> segment_of (Some ''Food-Snacks'') = ''Food & Beverages''
   \<and> segment_of (Some ''Electronics'') = ''Other''
   \<and> (clean_and_prepare_data parse sales_df stores_df = Inr df
        \<longrightarrow> (\<forall>r \<in> set df. Segment r = segment_of (Category r)))"
proof -
  have clothing: "\<not> prefix ''Food'' c4
      \<and> c4 \<notin> {''Home'', ''Kitchen'', ''Home Appliances'', ''Health'', ''Beauty'', ''Grooming''}"
    if "prefix ''Clothing'' c4"
    using that by (auto simp: prefix_def)
  have a: "prefix ''Food'' c1 \<longrightarrow> segment_of (Some c1) = ''Food & Beverages''"
    by (simp add: segment_of_def)
  have b: "c2 \<in> {''Home'', ''Kitchen'', ''Home Appliances''}
        \<longrightarrow> segment_of (Some c2) = ''Home & Living''"
    by (auto simp: segment_of_def)
  have c: "c3 \<in> {''Health'', ''Beauty'', ''Grooming''}
        \<longrightarrow> segment_of (Some c3) = ''Health & Beauty''"
    by (auto simp: segment_of_def)
  have d: "prefix ''Clothing'' c4 \<longrightarrow> segment_of (Some c4) = ''Fashion''"
    using clothing by (auto simp: segment_of_def)
  have e: "\<not> prefix ''Food'' c5
        \<and> c5 \<notin> {''Home'', ''Kitchen'', ''Home Appliances'', ''Health'', ''Beauty'', ''Grooming''}
        \<and> \<not> prefix ''Clothing'' c5 \<longrightarrow> segment_of (Some c5) = ''Other''"
    by (simp add: segment_of_def)
  have f: "segment_of None = ''Other''"
    "segment_of (Some ''Food-Snacks'') = ''Food & Beverages''"
    "segment_of (Some ''Electronics'') = ''Other''"
    by (simp_all add: segment_of_def)
  have g: "clean_and_prepare_data parse sales_df stores_df = Inr df
        \<longrightarrow> (\<forall>r \<in> set df. Segment r = segment_of (Category r))"
    using Segment_of_Category by blast
  from a b c d e f g show ?thesis by blast
qed


theorem segment_classification_witness:
  "segment_of (Some ''Food-Snacks'') = ''Food & Beverages''
   \<and> segment_of (Some ''Kitchen'') = ''Home & Living''
   \<and> segment_of (Some ''Beauty'') = ''Health & Beauty''
   \<and> segment_of (Some ''Clothing-Men'') = ''Fashion''
   \<and> segment_of (Some ''Electronics'') = ''Other''
   \<and> map_sum id (map Segment) (clean_and_prepare_data parse_iso [sale1, sale2] [store1])
       = Inr [''Food & Beverages'', ''Home & Living'']"
proof -
  note sc = segment_classification
    [of "''Food-Snacks''" "''Kitchen''" "''Beauty''" "''Clothing-Men''" "''Electronics''"
        parse_iso "[sale1, sale2]" "[store1]"]
  have h1: "prefix ''Food'' ''Food-Snacks''" "prefix ''Clothing'' ''Clothing-Men''"
    by simp_all
  have h5: "\<not> prefix ''Food'' ''Electronics'' \<and>
      ''Electronics'' \<notin> {''Home'', ''Kitchen'', ''Home Appliances'', ''Health'', ''Beauty'',
         ''Grooming''} \<and> \<not> prefix ''Clothing'' ''Electronics''"
    by simp
  have cats: "map_sum id (map Category)
      (clean_and_prepare_data parse_iso [sale1, sale2] [store1])
      = Inr [Some ''Food-Snacks'', Some ''Kitchen'']"
    by code_simp
  then obtain df where df: "clean_and_prepare_data parse_iso [sale1, sale2] [store1] = Inr df"
    and c: "map Category df = [Some ''Food-Snacks'', Some ''Kitchen'']"
    by (cases "clean_and_prepare_data parse_iso [sale1, sale2] [store1]") auto
  from sc df have "\<forall>r \<in> set df. Segment r = segment_of (Category r)"
    by blast
  then have "map Segment df = map segment_of (map Category df)"
    by simp
  also have "\<dots> = [''Food & Beverages'', ''Home & Living'']"
    unfolding c by (simp add: segment_of_def)
  finally have m: "map_sum id (map Segment)
      (clean_and_prepare_data parse_iso [sale1, sale2] [store1])
      = Inr [''Food & Beverages'', ''Home & Living'']"
    by (simp add: df)
  from sc h1 h5 m show ?thesis by simp
qed

subsection \<open>The prepared table, row by row\<close>

lemma to_datetime_Inr:
  "to_datetime parse col = Inr dates \<Longrightarrow> dates = map (\<lambda>c. Option.bind c parse) col"
  by (auto simp: to_datetime_def split: if_splits)

lemma zip_map_dated:
  "map (\<lambda>(s, d). set_Order_Date s d)
     (zip sales (map (\<lambda>c. Option.bind c parse) (map Order_Date sales)))
   = map (dated parse) sales"
  by (induction sales) (simp_all add: dated_def)

lemma clean_and_prepare_data_Inr:
  assumes "clean_and_prepare_data parse sales_df stores_df = Inr df"
  shows "df = map prepare_row (merge_left (map (dated parse) sales_df) stores_df)"
proof -
  from assms obtain dates where d: "to_datetime parse (map Order_Date sales_df) = Inr dates"
    and df: "df = map prepare_row
               (merge_left (map (\<lambda>(s, d). set_Order_Date s d) (zip sales_df dates)) stores_df)"
    by (auto simp: clean_and_prepare_data_def split: sum.splits)
  from to_datetime_Inr [OF d] df show ?thesis
    by (simp only: zip_map_dated)
qed


lemma prepared_row_cases:
  assumes "clean_and_prepare_data parse sales_df stores_df = Inr df" and "r \<in> set df"
  obtains s rs where "r = prepare_row (dated parse s, rs)" and "s \<in> set sales_df"
    and "(dated parse s, rs) \<in> set (merge_left (map (dated parse) sales_df) stores_df)"
proof -
  from clean_and_prepare_data_Inr [OF assms(1)] assms(2)
  obtain p where p: "p \<in> set (merge_left (map (dated parse) sales_df) stores_df)"
    and r: "r = prepare_row p" by auto
  from p have "fst p \<in> set (map (dated parse) sales_df)"
    using set_fst_merge_left [of "map (dated parse) sales_df" stores_df] by blast
  then obtain s where s: "s \<in> set sales_df" and f: "fst p = dated parse s" by auto
  obtain a b where ab: "p = (a, b)" by (cases p)
  with f have a: "a = dated parse s" by simp
  show thesis
  proof (rule that [of s b])
    show "r = prepare_row (dated parse s, b)" using r ab a by simp
    show "s \<in> set sales_df" by (rule s)
    show "(dated parse s, b) \<in> set (merge_left (map (dated parse) sales_df) stores_df)"
      using p ab a by simp
  qed
qed

lemma dated_fields [simp]:
  "Order_ID (dated parse s) = Order_ID s"
  "Product_Name (dated parse s) = Product_Name s"
  "Category (dated parse s) = Category s"
  "City (dated parse s) = City s"
  "Postal_Code (dated parse s) = Postal_Code s"
  "Region (dated parse s) = Region s"
  "Quantity (dated parse s) = Quantity s"
  "Sales (dated parse s) = Sales s"
  "Cost_Price (dated parse s) = Cost_Price s"
  "Discount (dated parse s) = Discount s"
  "Order_Mode (dated parse s) = Order_Mode s"
  by (simp_all add: dated_def)

lemma matches_dated [simp]: "matches (dated parse s) stores = matches s stores"
  by (simp add: matches_def)

lemma matches_prepare_row [simp]: "matches (prepare_row (s, rs)) stores = matches s stores"
  by (simp add: matches_def)

subsection \<open>Revenue and sales of a row\<close>




subsection \<open>The left join\<close>

lemma map_fst_merge_left:
  "map fst (merge_left sales stores)
     = concat (map (\<lambda>s. replicate (max 1 (length (matches s stores))) s) sales)"
proof (induction sales)
  case Nil
  show ?case by simp
next
  case (Cons s sales)
  have "map fst (case matches s stores of [] \<Rightarrow> [(s, None)]
                  | ms \<Rightarrow> map (\<lambda>t. (s, store_Region t)) ms)
        = replicate (max 1 (length (matches s stores))) s"
    by (cases "matches s stores") (simp_all add: map_replicate_const comp_def)
  with Cons show ?case by (simp add: merge_left_Cons)
qed

lemma truncate_prepare_rows: "map sale.truncate (map prepare_row ps) = map fst ps"
  by (induction ps) auto

lemma filter_key_empty:
  "k \<notin> set (map merge_keys stores) \<Longrightarrow> filter (\<lambda>t. merge_keys t = k) stores = []"
  by (induction stores) auto

lemma distinct_keys_filter:
  "distinct (map merge_keys stores) \<Longrightarrow> length (filter (\<lambda>t. merge_keys t = k) stores) \<le> 1"
proof (induction stores)
  case Nil
  show ?case by simp
next
  case (Cons t stores)
  show ?case
  proof (cases "merge_keys t = k")
    case True
    with Cons.prems have "k \<notin> set (map merge_keys stores)" by simp
    then have "filter (\<lambda>t. merge_keys t = k) stores = []" by (rule filter_key_empty)
    with True show ?thesis by simp
  next
    case False
    with Cons show ?thesis by simp
  qed
qed

lemma matches_keys: "matches s stores = filter (\<lambda>t. merge_keys t = (City s, Postal_Code s)) stores"
  by (simp add: matches_def merge_keys_def)

lemma distinct_keys_matches:
  "distinct (map merge_keys stores) \<Longrightarrow> length (matches s stores) \<le> 1"
  unfolding matches_keys by (rule distinct_keys_filter)

lemma merge_left_distinct:
  assumes "distinct (map merge_keys stores)"
  shows "merge_left sales stores
           = map (\<lambda>s. (s, case matches s stores of [] \<Rightarrow> None | t # _ \<Rightarrow> store_Region t)) sales"
proof (induction sales)
  case Nil
  show ?case by simp
next
  case (Cons s sales)
  from distinct_keys_matches [OF assms, of s]
  have "matches s stores = [] \<or> (\<exists>t. matches s stores = [t])"
    by (cases "matches s stores") (auto simp: length_Suc_conv)
  then have "(case matches s stores of [] \<Rightarrow> [(s, None)]
               | ms \<Rightarrow> map (\<lambda>t. (s, store_Region t)) ms)
             = [(s, case matches s stores of [] \<Rightarrow> None | t # _ \<Rightarrow> store_Region t)]"
    by auto
  with Cons show ?case by (simp add: merge_left_Cons)
qed

lemma merge_left_row:
  assumes "(s, rs) \<in> set (merge_left sales stores)"
  shows "(matches s stores = [] \<and> rs = None)
         \<or> (\<exists>t \<in> set (matches s stores). rs = store_Region t)"
  using assms
proof (induction sales)
  case Nil
  then show ?case by simp
next
  case (Cons x sales)
  from Cons.prems
  have "(s, rs) \<in> set (case matches x stores of [] \<Rightarrow> [(x, None)]
                         | ms \<Rightarrow> map (\<lambda>t. (x, store_Region t)) ms)
        \<or> (s, rs) \<in> set (merge_left sales stores)"
    by (simp add: merge_left_Cons)
  then show ?case
  proof
    assume a: "(s, rs) \<in> set (case matches x stores of [] \<Rightarrow> [(x, None)]
                         | ms \<Rightarrow> map (\<lambda>t. (x, store_Region t)) ms)"
    show ?thesis
    proof (cases "matches x stores")
      case Nil
      with a show ?thesis by simp
    next
      case (Cons t ts)
      with a have "s = x" and "rs \<in> store_Region ` set (matches x stores)" by auto
      then show ?thesis by auto
    qed
  next
    assume "(s, rs) \<in> set (merge_left sales stores)"
    then show ?thesis by (rule Cons.IH)
  qed
qed

text \<open>
  Claim C6, as amended. The merge keeps every transaction row, in the order of the
  transaction table: a row with no partner in the store table appears once, with a missing
  store region, and a row with \<open>n \<ge> 1\<close> partners appears \<open>n\<close> times. When no
  (city, postal code) pair occurs twice in the store table, the rows of the prepared table
  are exactly the transaction rows.
\<close>

theorem left_join_preserves_rows:
  assumes "clean_and_prepare_data parse sales_df stores_df = Inr df"
  shows "map sale.truncate df
           = concat (map (\<lambda>s. replicate (max 1 (length (matches s stores_df))) (dated parse s))
                       sales_df)
         \<and> (\<forall>r \<in> set df. matches r stores_df = [] \<longrightarrow> Region_store r = None)
         \<and> (distinct (map merge_keys stores_df)
              \<longrightarrow> map sale.truncate df = map (dated parse) sales_df)"
proof -
  note df = clean_and_prepare_data_Inr [OF assms]
  have t: "map sale.truncate df = map fst (merge_left (map (dated parse) sales_df) stores_df)"
    unfolding df by (rule truncate_prepare_rows)
  also have "\<dots> = concat (map (\<lambda>s. replicate (max 1 (length (matches s stores_df))) s)
                          (map (dated parse) sales_df))"
    by (rule map_fst_merge_left)
  also have "\<dots> = concat (map (\<lambda>s. replicate (max 1 (length (matches s stores_df)))
                                  (dated parse s)) sales_df)"
    by (simp add: comp_def)
  finally have a: "map sale.truncate df
      = concat (map (\<lambda>s. replicate (max 1 (length (matches s stores_df))) (dated parse s))
          sales_df)" .
  have b: "\<forall>r \<in> set df. matches r stores_df = [] \<longrightarrow> Region_store r = None"
  proof (intro ballI impI)
    fix r assume r: "r \<in> set df" and m: "matches r stores_df = []"
    from assms r obtain s rs where rr: "r = prepare_row (dated parse s, rs)"
      and p: "(dated parse s, rs) \<in> set (merge_left (map (dated parse) sales_df) stores_df)"
      by (rule prepared_row_cases)
    from m rr have "matches (dated parse s) stores_df = []" by simp
    with merge_left_row [OF p] have "rs = None" by auto
    with rr show "Region_store r = None" by simp
  qed
  have c: "map sale.truncate df = map (dated parse) sales_df"
    if "distinct (map merge_keys stores_df)"
    unfolding t merge_left_distinct [OF that] by (simp add: comp_def)
  from a b c show ?thesis by blast
qed

theorem left_join_preserves_rows_witness:
  "distinct (map merge_keys [store1])
   \<and> map_sum id (map sale.truncate) (clean_and_prepare_data parse_iso [sale1, sale2] [store1])
       = Inr [dated parse_iso sale1, dated parse_iso sale2]
   \<and> map_sum id (map Region_store) (clean_and_prepare_data parse_iso [sale1, sale2] [store1])
       = Inr [Some ''Yorkshire'', None]"
proof -
  have d: "distinct (map merge_keys [store1])" by simp
  have "map_sum id (map (\<lambda>r. (matches r [store1] = [], Region_store r)))
      (clean_and_prepare_data parse_iso [sale1, sale2] [store1])
      = Inr [(False, Some ''Yorkshire''), (True, None)]"
    by code_simp
  then obtain r1 r2
    where df: "clean_and_prepare_data parse_iso [sale1, sale2] [store1] = Inr [r1, r2]"
      and r1: "Region_store r1 = Some ''Yorkshire''" and r2: "matches r2 [store1] = []"
    by (cases "clean_and_prepare_data parse_iso [sale1, sale2] [store1]") auto
  from left_join_preserves_rows [OF df] d r2
  have "map sale.truncate [r1, r2] = map (dated parse_iso) [sale1, sale2]"
    and "Region_store r2 = None"
    by simp_all
  with d r1 show ?thesis by (simp add: df)
qed

text \<open>
  The claim as written, that the prepared table has exactly the transaction rows, fails when
  a (city, postal code) pair occurs twice in the store table: the second transaction below
  has two partners and appears twice.
\<close>

theorem left_join_repeats_rows:
  "map Order_ID [sale1, sale2] = [Some ''O1'', Some ''O2'']
   \<and> map_sum id (map Order_ID)
       (clean_and_prepare_data parse_iso [sale1, sale2] [store1, store2, store3])
     = Inr [Some ''O1'', Some ''O2'', Some ''O2'']"
  by code_simp

subsection \<open>Region resolution\<close>

text \<open>
  Claim C2, as amended. When no (city, postal code) pair occurs twice in the store table,
  every transaction row has exactly one row in the prepared table, at the same position.
  Its resolved region is the region of the matching store row when there is a matching row
  and its region is present, and the transaction's own region otherwise. So the resolved
  region is present whenever the transaction's own region is.
\<close>

theorem region_resolution:
  assumes "clean_and_prepare_data parse sales_df stores_df = Inr df"
    and "distinct (map merge_keys stores_df)"
  shows "length df = length sales_df
         \<and> (\<forall>i < length sales_df.
               sale.truncate (df ! i) = dated parse (sales_df ! i)
               \<and> Region_Final (df ! i)
                   = (case matches (sales_df ! i) stores_df of
                        [] \<Rightarrow> Region (sales_df ! i)
                      | t # _ \<Rightarrow> (case store_Region t of
                                   Some x \<Rightarrow> Some x
                                 | None \<Rightarrow> Region (sales_df ! i)))
               \<and> (Region (sales_df ! i) \<noteq> None \<longrightarrow> Region_Final (df ! i) \<noteq> None))"
proof -
  let ?rs = "\<lambda>s. case matches s stores_df of [] \<Rightarrow> None | t # _ \<Rightarrow> store_Region t"
  have df: "df = map (\<lambda>s. prepare_row (dated parse s, ?rs s)) sales_df"
    unfolding clean_and_prepare_data_Inr [OF assms(1)] merge_left_distinct [OF assms(2)]
    by (simp add: comp_def)
  have len: "length df = length sales_df" by (simp add: df)
  have row: "sale.truncate (df ! i) = dated parse (sales_df ! i)
      \<and> Region_Final (df ! i)
          = (case matches (sales_df ! i) stores_df of
               [] \<Rightarrow> Region (sales_df ! i)
             | t # _ \<Rightarrow> (case store_Region t of
                          Some x \<Rightarrow> Some x
                        | None \<Rightarrow> Region (sales_df ! i)))
      \<and> (Region (sales_df ! i) \<noteq> None \<longrightarrow> Region_Final (df ! i) \<noteq> None)"
    if "i < length sales_df" for i
  proof -
    from that have "df ! i = prepare_row (dated parse (sales_df ! i), ?rs (sales_df ! i))"
      by (simp add: df)
    then show ?thesis
      by (auto simp: fillna_def split: list.splits option.splits)
  qed
  from len row show ?thesis by blast
qed

theorem region_resolution_witness:
  "distinct (map merge_keys [store1])
   \<and> map_sum id (map Region_Final) (clean_and_prepare_data parse_iso [sale1, sale2] [store1])
       = Inr [Some ''Yorkshire'', Some ''West'']"
proof -
  have d: "distinct (map merge_keys [store1])" by simp
  have "map_sum id length (clean_and_prepare_data parse_iso [sale1, sale2] [store1]) = Inr 2"
    by code_simp
  then obtain r1 r2
    where df: "clean_and_prepare_data parse_iso [sale1, sale2] [store1] = Inr [r1, r2]"
    by (cases "clean_and_prepare_data parse_iso [sale1, sale2] [store1]")
       (auto simp: length_Suc_conv numeral_2_eq_2)
  have m: "matches sale1 [store1] = [store1]" "matches sale2 [store1] = []"
    "store_Region store1 = Some ''Yorkshire''" "Region sale2 = Some ''West''"
    by code_simp+
  note rr = region_resolution [OF df d, THEN conjunct2, rule_format]
  have i0: "(0::nat) < length [sale1, sale2]" and i1: "(1::nat) < length [sale1, sale2]"
    by simp_all
  from rr [OF i0, THEN conjunct2, THEN conjunct1] m
  have a: "Region_Final r1 = Some ''Yorkshire''" by simp
  from rr [OF i1, THEN conjunct2, THEN conjunct1] m
  have b: "Region_Final r2 = Some ''West''" by simp
  from d a b show ?thesis by (simp add: df)
qed

text \<open>
  The claim as written fails on the tables below. The first transaction has no region of its
  own and no partner in the store table, and its resolved region is missing. The second
  transaction has two partners in the store table, and the prepared table resolves it to
  two regions.
\<close>

theorem region_resolution_missing_and_repeated:
  "map Order_ID [sale_no_region, sale2] = [Some ''O4'', Some ''O2'']
   \<and> map_sum id (map Order_ID)
       (clean_and_prepare_data parse_iso [sale_no_region, sale2] [store2, store3])
     = Inr [Some ''O4'', Some ''O2'', Some ''O2'']
   \<and> map_sum id (map Region_Final)
       (clean_and_prepare_data parse_iso [sale_no_region, sale2] [store2, store3])
     = Inr [None, Some ''South West'', Some ''Somerset'']"
  by code_simp

section \<open>Properties of the aggregator\<close>

subsection \<open>The order on the numbers\<close>

lemma notna_simps [simp]:
  "notna (Fin x)" "notna PInf" "notna NInf" "\<not> notna NaN"
  by (simp_all add: notna_def)

lemma fle_refl: "notna a \<Longrightarrow> fle a a"
  by (cases a) (simp_all add: notna_def)

lemma fle_total: "notna a \<Longrightarrow> notna b \<Longrightarrow> fle a b \<or> fle b a"
  by (cases a; cases b) (auto simp: notna_def)

lemma fle_trans: "fle a b \<Longrightarrow> fle b c \<Longrightarrow> fle a c"
  by (cases a; cases b; cases c) auto

lemma fle_notna: "fle a b \<Longrightarrow> notna a \<and> notna b"
  by (cases a; cases b) (auto simp: notna_def)

subsection \<open>Sorting\<close>

lemma mset_insort_by: "mset (insort_by k x xs) = add_mset x (mset xs)"
  by (induction xs) auto

lemma mset_argsort: "mset (argsort k xs) = mset xs"
  by (induction xs) (simp_all add: argsort_def mset_insort_by)

lemma set_argsort: "set (argsort k xs) = set xs"
  using mset_argsort [of k xs] by (metis set_mset_mset)

lemma set_insort_by: "set (insort_by k x xs) = insert x (set xs)"
  using mset_insort_by [of k x xs] by (metis set_mset_mset set_mset_add_mset_insert)

lemma sorted_insort_by:
  assumes "notna (k x)" and "\<forall>y \<in> set xs. notna (k y)"
    and "sorted_wrt (\<lambda>a b. fle (k a) (k b)) xs"
  shows "sorted_wrt (\<lambda>a b. fle (k a) (k b)) (insort_by k x xs)"
  using assms
proof (induction xs)
  case Nil
  then show ?case by simp
next
  case (Cons y ys)
  show ?case
  proof (cases "fle (k x) (k y)")
    case True
    from Cons.prems(3) have "\<forall>z \<in> set ys. fle (k y) (k z)" by simp
    with True have "\<forall>z \<in> set ys. fle (k x) (k z)" by (blast intro: fle_trans)
    with True Cons.prems(3) show ?thesis by simp
  next
    case False
    with Cons.prems(1,2) have yx: "fle (k y) (k x)"
      using fle_total [of "k x" "k y"] by simp
    from Cons.prems have "sorted_wrt (\<lambda>a b. fle (k a) (k b)) (insort_by k x ys)"
      by (intro Cons.IH) simp_all
    moreover from Cons.prems(3) yx have "\<forall>z \<in> set (insort_by k x ys). fle (k y) (k z)"
      by (simp add: set_insort_by)
    ultimately show ?thesis using False by simp
  qed
qed

lemma sorted_argsort:
  "\<forall>y \<in> set xs. notna (k y) \<Longrightarrow> sorted_wrt (\<lambda>a b. fle (k a) (k b)) (argsort k xs)"
proof (induction xs)
  case Nil
  show ?case by (simp add: argsort_def)
next
  case (Cons x xs)
  then have "sorted_wrt (\<lambda>a b. fle (k a) (k b)) (argsort k xs)" by simp
  moreover from Cons.prems have "notna (k x)" and "\<forall>y \<in> set (argsort k xs). notna (k y)"
    by (simp_all add: set_argsort)
  ultimately have "sorted_wrt (\<lambda>a b. fle (k a) (k b)) (insort_by k x (argsort k xs))"
    by (intro sorted_insort_by)
  then show ?case by (simp add: argsort_def)
qed

lemma mset_sort_values: "mset (sort_values k asc rows) = mset rows"
  by (simp add: sort_values_def Let_def mset_argsort)


lemma sort_values_descending_split:
  "\<exists>xs ys. sort_values k False rows = xs @ ys
     \<and> (\<forall>x \<in> set xs. notna (k x)) \<and> (\<forall>y \<in> set ys. \<not> notna (k y))
     \<and> sorted_wrt (\<lambda>a b. fle (k b) (k a)) xs"
proof -
  let ?nn = "filter (\<lambda>r. notna (k r)) rows"
  let ?xs = "rev (argsort k (rev ?nn))"
  let ?ys = "filter (\<lambda>r. \<not> notna (k r)) rows"
  have "sort_values k False rows = ?xs @ ?ys"
    by (simp add: sort_values_def Let_def)
  moreover have "\<forall>x \<in> set ?xs. notna (k x)" by (simp add: set_argsort)
  moreover have "\<forall>y \<in> set ?ys. \<not> notna (k y)" by simp
  moreover have "sorted_wrt (\<lambda>a b. fle (k b) (k a)) ?xs"
  proof -
    have "sorted_wrt (\<lambda>a b. fle (k a) (k b)) (argsort k (rev ?nn))"
      by (rule sorted_argsort) simp
    then show ?thesis by (simp add: sorted_wrt_rev)
  qed
  ultimately show ?thesis by blast
qed

lemma descending_nan_last_append:
  assumes "sorted_wrt (\<lambda>a b. fle (k b) (k a)) xs" and "\<forall>y \<in> set ys. \<not> notna (k y)"
  shows "descending_nan_last k (xs @ ys)"
  using assms
proof (induction xs)
  case Nil
  from Nil(2) show ?case
  proof (induction ys)
    case Nil
    show ?case by simp
  next
    case (Cons y ys)
    then show ?case by (cases ys) simp_all
  qed
next
  case (Cons x xs)
  then have ih: "descending_nan_last k (xs @ ys)" by simp
  show ?case
  proof (cases "xs @ ys")
    case Nil
    then show ?thesis by simp
  next
    case (Cons z zs)
    have "notna (k z) \<longrightarrow> fle (k z) (k x)"
    proof (cases xs)
      case Nil
      with Cons \<open>\<forall>y \<in> set ys. \<not> notna (k y)\<close> show ?thesis by auto
    next
      case (Cons x' xs')
      with \<open>xs @ ys = z # zs\<close> have "z = x'" by simp
      with Cons \<open>sorted_wrt (\<lambda>a b. fle (k b) (k a)) (x # xs)\<close> show ?thesis by simp
    qed
    with ih Cons show ?thesis by simp
  qed
qed

lemma sort_values_descending_nan_last: "descending_nan_last k (sort_values k False rows)"
proof -
  from sort_values_descending_split [of k rows] obtain xs ys
    where "sort_values k False rows = xs @ ys" and "\<forall>y \<in> set ys. \<not> notna (k y)"
      and "sorted_wrt (\<lambda>a b. fle (k b) (k a)) xs"
    by blast
  then show ?thesis by (simp add: descending_nan_last_append)
qed

lemma sort_values_descending_sorted:
  assumes "\<forall>r \<in> set rows. notna (k r)"
  shows "sorted_wrt (\<lambda>a b. fle (k b) (k a)) (sort_values k False rows)"
proof -
  from assms have "filter (\<lambda>r. \<not> notna (k r)) rows = []" by (simp add: filter_empty_conv)
  moreover from assms have "filter (\<lambda>r. notna (k r)) rows = rows" by (simp add: filter_id_conv)
  ultimately have "sort_values k False rows = rev (argsort k (rev rows))"
    by (simp add: sort_values_def Let_def)
  moreover from assms have "sorted_wrt (\<lambda>a b. fle (k a) (k b)) (argsort k (rev rows))"
    by (intro sorted_argsort) simp
  ultimately show ?thesis by (simp add: sorted_wrt_rev)
qed

subsection \<open>Grouping and the reductions\<close>

lemma map_fst_groupby: "map fst (groupby key df) = sort (remdups (List.map_filter key df))"
  by (simp add: groupby_def comp_def)

lemma set_map_filter: "set (List.map_filter f xs) = {y. \<exists>x \<in> set xs. f x = Some y}"
  by (induction xs) (auto simp: List.map_filter_simps split: option.splits)

lemma in_groupby:
  "g \<in> set (groupby key df)
     \<longleftrightarrow> (\<exists>k. Some k \<in> key ` set df \<and> g = (k, filter (\<lambda>r. key r = Some k) df))"
  by (auto simp: groupby_def set_map_filter image_iff) metis+

lemma foldl_fadd_Fin: "foldl fadd (Fin a) (map Fin xs) = Fin (a + sum_list xs)"
  by (induction xs arbitrary: a) (simp_all add: add.assoc)

lemma fin_or_nan_filter:
  assumes "\<forall>v \<in> set vs. v = NaN \<or> (\<exists>x. v = Fin x)"
  shows "\<exists>xs. filter notna vs = map Fin xs"
  using assms
proof (induction vs)
  case Nil
  show ?case by simp
next
  case (Cons v vs)
  then obtain xs where xs: "filter notna vs = map Fin xs" by auto
  from Cons.prems have "v = NaN \<or> (\<exists>x. v = Fin x)" by simp
  then show ?case
  proof
    assume "v = NaN"
    with xs have "filter notna (v # vs) = map Fin xs" by simp
    then show ?thesis by blast
  next
    assume "\<exists>x. v = Fin x"
    then obtain x where "v = Fin x" ..
    with xs have "filter notna (v # vs) = map Fin (x # xs)" by simp
    then show ?thesis by blast
  qed
qed

lemma agg_sum_finite:
  assumes "\<forall>v \<in> set vs. v = NaN \<or> (\<exists>x. v = Fin x)"
  shows "\<exists>y. agg_sum vs = Fin y"
proof -
  from fin_or_nan_filter [OF assms] obtain xs where "filter notna vs = map Fin xs" ..
  then show ?thesis by (simp add: agg_sum_def foldl_fadd_Fin)
qed


lemma cell_fin_or_nan: "cell c = NaN \<or> (\<exists>x. cell c = Fin x)"
  by (cases c) (simp_all add: cell_def)

lemma fmul_fin_or_nan:
  "a = NaN \<or> (\<exists>x. a = Fin x) \<Longrightarrow> b = NaN \<or> (\<exists>x. b = Fin x)
     \<Longrightarrow> fmul a b = NaN \<or> (\<exists>x. fmul a b = Fin x)"
  by (cases a; cases b) auto

lemma fsub_fin_or_nan:
  "a = NaN \<or> (\<exists>x. a = Fin x) \<Longrightarrow> b = NaN \<or> (\<exists>x. b = Fin x)
     \<Longrightarrow> fsub a b = NaN \<or> (\<exists>x. fsub a b = Fin x)"
  by (cases a; cases b) (auto simp: fsub_def)

lemma Total_Sales_col_fin_or_nan: "Total_Sales_col s = NaN \<or> (\<exists>x. Total_Sales_col s = Fin x)"
  unfolding Total_Sales_col_def by (intro fmul_fin_or_nan cell_fin_or_nan)

lemma Total_Revenue_col_fin_or_nan:
  "Total_Revenue_col s = NaN \<or> (\<exists>x. Total_Revenue_col s = Fin x)"
  unfolding Total_Revenue_col_def Revenue_col_def
  by (intro fmul_fin_or_nan fsub_fin_or_nan cell_fin_or_nan)

lemma prepared_totals_fin_or_nan:
  assumes "clean_and_prepare_data parse sales_df stores_df = Inr df" and "r \<in> set df"
  shows "Total_Sales r = NaN \<or> (\<exists>x. Total_Sales r = Fin x)"
    and "Total_Revenue r = NaN \<or> (\<exists>x. Total_Revenue r = Fin x)"
proof -
  from assms obtain s rs where r: "r = prepare_row (dated parse s, rs)"
    by (rule prepared_row_cases)
  show "Total_Sales r = NaN \<or> (\<exists>x. Total_Sales r = Fin x)"
    unfolding r using Total_Sales_col_fin_or_nan [of "dated parse s"] by simp
  show "Total_Revenue r = NaN \<or> (\<exists>x. Total_Revenue r = Fin x)"
    unfolding r using Total_Revenue_col_fin_or_nan [of "dated parse s"] by simp
qed

subsection \<open>Order of the summaries\<close>

lemma groupby_rows_subset: "g \<in> set (groupby key df) \<Longrightarrow> set (snd g) \<subseteq> set df"
  by (auto simp: in_groupby)

lemma agg_sum_Total_Revenue_finite:
  assumes "clean_and_prepare_data parse sales_df stores_df = Inr df" and "set rows \<subseteq> set df"
  shows "\<exists>y. agg_sum (map Total_Revenue rows) = Fin y"
proof (rule agg_sum_finite)
  show "\<forall>v \<in> set (map Total_Revenue rows). v = NaN \<or> (\<exists>x. v = Fin x)"
    using prepared_totals_fin_or_nan(2) [OF assms(1)] assms(2) by auto
qed


lemma summary_agg_revenue_notna:
  assumes "clean_and_prepare_data parse sales_df stores_df = Inr df"
    and "g \<in> set (groupby key df)"
  shows "notna (rs_Total_Revenue (summary_agg g))"
proof -
  obtain k rows where g: "g = (k, rows)" by (cases g)
  with groupby_rows_subset [OF assms(2)] have "set rows \<subseteq> set df" by simp
  from agg_sum_Total_Revenue_finite [OF assms(1) this]
  obtain y where "agg_sum (map Total_Revenue rows) = Fin y" ..
  then show ?thesis by (simp add: summary_agg_def g)
qed

text \<open>
  Claim C9, as amended. The region summary and the segment summary are sorted by their
  summed total revenue, which is always a number: it does not increase from a row to any
  later row. The category summary is sorted by its mean profit margin with the categories
  whose mean margin is NaN last: the key does not increase from a row to the next one
  whenever the key of the next row is a number. Each summary holds the same rows as the
  grouped table it is sorted from.
\<close>

theorem summaries_sorted:
  assumes "clean_and_prepare_data parse sales_df stores_df = Inr df"
  shows "sorted_wrt (\<lambda>a b. fle (rs_Total_Revenue b) (rs_Total_Revenue a)) (regional_summary df)
         \<and> mset (regional_summary df) = mset (map summary_agg (groupby Region_Final df))
         \<and> sorted_wrt (\<lambda>a b. fle (rs_Total_Revenue b) (rs_Total_Revenue a))
             (segment_summary df)
         \<and> mset (segment_summary df)
             = mset (map summary_agg (groupby (\<lambda>r. Some (Segment r)) df))
         \<and> descending_nan_last cm_Profit_Margin (analyze_categories_margins df)
         \<and> mset (analyze_categories_margins df) = mset (map category_agg (groupby Category df))"
proof -
  have a: "sorted_wrt (\<lambda>a b. fle (rs_Total_Revenue b) (rs_Total_Revenue a))
      (regional_summary df)"
    unfolding regional_summary_def
    by (rule sort_values_descending_sorted)
       (auto simp: summary_agg_revenue_notna [OF assms])
  have b: "sorted_wrt (\<lambda>a b. fle (rs_Total_Revenue b) (rs_Total_Revenue a))
      (segment_summary df)"
    unfolding segment_summary_def
    by (rule sort_values_descending_sorted)
       (auto simp: summary_agg_revenue_notna [OF assms])
  have c: "descending_nan_last cm_Profit_Margin (analyze_categories_margins df)"
    unfolding analyze_categories_margins_def by (rule sort_values_descending_nan_last)
  have d: "mset (regional_summary df) = mset (map summary_agg (groupby Region_Final df))"
    "mset (segment_summary df) = mset (map summary_agg (groupby (\<lambda>r. Some (Segment r)) df))"
    "mset (analyze_categories_margins df) = mset (map category_agg (groupby Category df))"
    unfolding regional_summary_def segment_summary_def analyze_categories_margins_def
    by (rule mset_sort_values)+
  from a b c d show ?thesis by blast
qed

theorem summaries_sorted_witness:
  "map_sum id (map rs_Total_Revenue \<circ> regional_summary)
     (clean_and_prepare_data parse_iso [sale2, sale1] [store1]) = Inr [Fin 120, Fin 30]
   \<and> fle (Fin 30) (Fin 120)
   \<and> map_sum id (map cm_Profit_Margin \<circ> analyze_categories_margins)
       (clean_and_prepare_data parse_iso [sale2, sale1] [store1]) = Inr [Fin 40, Fin (75 / 2)]
   \<and> fle (Fin (75 / 2)) (Fin 40)"
proof -
  have ev: "map_sum id (map rs_Total_Revenue \<circ> regional_summary)
      (clean_and_prepare_data parse_iso [sale2, sale1] [store1]) = Inr [Fin 120, Fin 30]"
    "map_sum id (map cm_Profit_Margin \<circ> analyze_categories_margins)
       (clean_and_prepare_data parse_iso [sale2, sale1] [store1]) = Inr [Fin 40, Fin (75 / 2)]"
    by code_simp+
  then obtain df where df: "clean_and_prepare_data parse_iso [sale2, sale1] [store1] = Inr df"
    and r: "map rs_Total_Revenue (regional_summary df) = [Fin 120, Fin 30]"
    and c: "map cm_Profit_Margin (analyze_categories_margins df) = [Fin 40, Fin (75 / 2)]"
    by (cases "clean_and_prepare_data parse_iso [sale2, sale1] [store1]") auto
  from r obtain g1 g2 where g: "regional_summary df = [g1, g2]"
    "rs_Total_Revenue g1 = Fin 120" "rs_Total_Revenue g2 = Fin 30"
    by auto
  from c obtain c1 c2 where cc: "analyze_categories_margins df = [c1, c2]"
    "cm_Profit_Margin c1 = Fin 40" "cm_Profit_Margin c2 = Fin (75 / 2)"
    by auto
  from summaries_sorted [OF df]
  have "sorted_wrt (\<lambda>a b. fle (rs_Total_Revenue b) (rs_Total_Revenue a)) (regional_summary df)"
    and "descending_nan_last cm_Profit_Margin (analyze_categories_margins df)"
    by simp_all
  then have "fle (Fin 30) (Fin 120)" and "fle (Fin (75 / 2)) (Fin 40)"
    unfolding g cc by simp_all
  with ev show ?thesis by simp
qed

text \<open>
  The claim as written fails for the category summary when a category has no margin that is
  a number: the category of a single row with sales price 0 and cost price 0 has the mean
  margin NaN, it is placed last, and NaN is not at most the key before it.
\<close>

theorem category_summary_nan_last:
  "map_sum id (map cm_index \<circ> analyze_categories_margins)
     (clean_and_prepare_data parse_iso [sale_free, sale2] [store1])
     = Inr [''Kitchen'', ''Food-Snacks'']
   \<and> map_sum id (map cm_Profit_Margin \<circ> analyze_categories_margins)
       (clean_and_prepare_data parse_iso [sale_free, sale2] [store1])
     = Inr [Fin (75 / 2), NaN]
   \<and> \<not> fle NaN (Fin (75 / 2))"
  by code_simp

subsection \<open>A sales price of zero\<close>







subsection \<open>The mean discount of a group\<close>









lemma extend_order_mode_fields [simp]:
  "om_index (order_mode_agg_row.extend g x) = om_index g"
  "om_Total_Sales (order_mode_agg_row.extend g x) = om_Total_Sales g"
  "om_Total_Revenue (order_mode_agg_row.extend g x) = om_Total_Revenue g"
  "om_Order_ID (order_mode_agg_row.extend g x) = om_Order_ID g"
  "om_Discount (order_mode_agg_row.extend g x) = om_Discount g"
  "om_Sales_pct (order_mode_agg_row.extend g (order_mode_row.fields a b)) = a"
  "om_Revenue_pct (order_mode_agg_row.extend g (order_mode_row.fields a b)) = b"
  by (simp_all add: order_mode_agg_row.defs order_mode_row.defs)





subsection \<open>Shares of the channels\<close>














section \<open>Properties of the run\<close>

lemma loc_Inr: "loc t label = Inr g \<Longrightarrow> label \<in> om_index ` set t"
  by (auto simp: loc_def find_Some_iff split: option.splits)

lemma bind_err_Inr_iff: "bind_err m f = Inr y \<longleftrightarrow> (\<exists>x. m = Inr x \<and> f x = Inr y)"
  by (cases m) (simp_all add: bind_err_def)

lemma generate_insights_report_Inr:
  assumes "generate_insights_report df regional segment top_products bottom_products
             category_margins order_mode_analysis = Inr rep"
  shows "\<exists>a b. loc order_mode_analysis ''Online'' = Inr a
           \<and> loc order_mode_analysis ''In-Store'' = Inr b"
  using assms unfolding generate_insights_report_def bind_err_Inr_iff Let_def
  by blast

lemma om_index_analyze_order_mode:
  "om_index ` set (analyze_order_mode df) = {k. Some k \<in> Order_Mode ` set df}"
proof -
  have "map om_index (analyze_order_mode df) = map fst (groupby Order_Mode df)"
    by (simp add: analyze_order_mode_def Let_def comp_def order_mode_agg_def split_def)
  then have "set (map om_index (analyze_order_mode df))
      = set (sort (remdups (List.map_filter Order_Mode df)))"
    by (simp only: map_fst_groupby)
  then have "om_index ` set (analyze_order_mode df) = set (List.map_filter Order_Mode df)"
    by simp
  also have "\<dots> = {k. Some k \<in> Order_Mode ` set df}"
    unfolding set_map_filter by force
  finally show ?thesis .
qed

lemma Order_Mode_prepared:
  assumes "clean_and_prepare_data parse sales_df stores_df = Inr df"
  shows "Order_Mode ` set df = Order_Mode ` set sales_df"
proof -
  let ?m = "merge_left (map (dated parse) sales_df) stores_df"
  have "Order_Mode ` set df = (\<lambda>p. Order_Mode (fst p)) ` set ?m"
    unfolding clean_and_prepare_data_Inr [OF assms]
    by (auto simp: image_iff) (metis fst_conv prepare_row_sale(12) prod.collapse)+
  also have "\<dots> = Order_Mode ` (fst ` set ?m)" by (simp add: image_image)
  also have "\<dots> = Order_Mode ` set (map (dated parse) sales_df)"
    by (simp only: set_fst_merge_left)
  also have "\<dots> = Order_Mode ` set sales_df" by (simp add: image_image)
  finally show ?thesis .
qed

text \<open>
  Claim C8. When no row of the transaction table has the channel "Online", or none has the
  channel "In-Store", the run fails: \<^verbatim>\<open>main\<close> ends with an error and returns no report.
\<close>

theorem missing_channel_fails:
  assumes "Some ''Online'' \<notin> set (map Order_Mode sales_df)
           \<or> Some ''In-Store'' \<notin> set (map Order_Mode sales_df)"
  shows "\<exists>e. main parse sales_df stores_df = Inl e"
proof (cases "main parse sales_df stores_df")
  case (Inl e)
  then show ?thesis by blast
next
  case (Inr rep)
  then obtain df where df: "clean_and_prepare_data parse sales_df stores_df = Inr df"
    and rep: "(case analyze_by_region_segment df of (regional, segment) \<Rightarrow>
       case analyze_products df of (top_products, bottom_products, _) \<Rightarrow>
         generate_insights_report df regional segment top_products bottom_products
           (analyze_categories_margins df) (analyze_order_mode df)) = Inr rep"
    unfolding main_def bind_err_Inr_iff by blast
  from rep obtain regional segment top_products bottom_products
    where "generate_insights_report df regional segment top_products bottom_products
           (analyze_categories_margins df) (analyze_order_mode df) = Inr rep"
    by (auto split: prod.splits)
  from generate_insights_report_Inr [OF this] obtain a b
    where a: "loc (analyze_order_mode df) ''Online'' = Inr a"
      and b: "loc (analyze_order_mode df) ''In-Store'' = Inr b"
    by blast
  have "''Online'' \<in> om_index ` set (analyze_order_mode df)"
    using a by (rule loc_Inr)
  moreover have "''In-Store'' \<in> om_index ` set (analyze_order_mode df)"
    using b by (rule loc_Inr)
  ultimately have "Some ''Online'' \<in> Order_Mode ` set sales_df"
    and "Some ''In-Store'' \<in> Order_Mode ` set sales_df"
    unfolding om_index_analyze_order_mode Order_Mode_prepared [OF df] by simp_all
  with assms show ?thesis by simp
qed

theorem missing_channel_fails_witness:
  "Some ''In-Store'' \<notin> set (map Order_Mode [sale1, sale_no_discount])
   \<and> main parse_iso [sale1, sale_no_discount] [store1] = Inl (KeyError ''In-Store'')"
proof -
  have h: "Some ''In-Store'' \<notin> set (map Order_Mode [sale1, sale_no_discount])"
    by code_simp
  have ev: "main parse_iso [sale1, sale_no_discount] [store1] = Inl (KeyError ''In-Store'')"
    by code_simp
  from h have "Some ''Online'' \<notin> set (map Order_Mode [sale1, sale_no_discount])
      \<or> Some ''In-Store'' \<notin> set (map Order_Mode [sale1, sale_no_discount])"
    by (rule disjI2)
  from missing_channel_fails [OF this, of parse_iso "[store1]"] h ev
  show ?thesis by simp
qed

end
